theory Spec2Isabelle
  imports Main "HOL-Library.Multiset" "HOL-Library.Sublist"
begin

section \<open>Data model of \<open>main.go\<close>\<close>

text \<open>
  Strings are byte lists (\<^typ>\<open>string\<close>). A Go \<open>error\<close> value that is not \<open>nil\<close> is an
  \<open>Error\<close> carrying its message; the pair \<open>(string, error)\<close> returned by \<open>Query\<close> is a
  pair whose second component is \<open>None\<close> for \<open>nil\<close>. A Go map is a partial function; a
  \<open>nil\<close> map and an empty map read alike and are both \<open>Map.empty\<close>, except for the \<open>extra\<close>
  argument of \<open>Query\<close>, which is an option because the callers pass \<open>nil\<close> there.
\<close>

datatype error = Error string

datatype go_context = Background | WithTimeout go_context nat

text \<open>
  The interface \<open>Provider\<close> (lines 17-21): an interface value is the record of its three
  methods. \<open>Name\<close> and \<open>Enabled\<close> are getters; \<open>Query\<close> is the provider's behaviour as a
  function of the context, the prompt and the extra map.
\<close>

record Provider =
  Name :: string
  Enabled :: bool
  Query :: "go_context \<Rightarrow> string \<Rightarrow> (string \<rightharpoonup> string) option \<Rightarrow> string \<times> error option"

text \<open>The struct \<open>OpenAIProvider\<close> (lines 23-33) and its methods.\<close>

record OpenAIProvider =
  enabled :: bool
  apiKey :: string

definition OpenAIProvider_Name :: "OpenAIProvider \<Rightarrow> string" where
  "OpenAIProvider_Name p = ''openai''"

definition OpenAIProvider_Enabled :: "OpenAIProvider \<Rightarrow> bool" where
  "OpenAIProvider_Enabled p = enabled p"

definition OpenAIProvider_Query ::
  "OpenAIProvider \<Rightarrow> go_context \<Rightarrow> string \<Rightarrow> (string \<rightharpoonup> string) option \<Rightarrow> string \<times> error option"
where
  "OpenAIProvider_Query p ctx prompt extra = (''OpenAI answer to: '' @ prompt, None)"

text \<open>A pointer to an \<open>OpenAIProvider\<close> used as a \<open>Provider\<close> interface value.\<close>

definition OpenAIProvider_iface :: "OpenAIProvider \<Rightarrow> Provider" where
  "OpenAIProvider_iface p =
     \<lparr>Name = OpenAIProvider_Name p, Enabled = OpenAIProvider_Enabled p,
      Query = OpenAIProvider_Query p\<rparr>"

text \<open>The struct \<open>Config\<close> (lines 35-38).\<close>

record Config =
  EnabledProviders :: "string \<rightharpoonup> bool"
  Debug :: bool

section \<open>Ranging over a Go map\<close>

text \<open>
  The iteration order of \<open>for k, v := range m\<close> is chosen by the runtime. The loops below
  take that order as a list of keys; \<open>range_order m order\<close> says the list enumerates the
  keys of \<open>m\<close>, each once. A key of the list that is not in the map is not visited.
\<close>

definition range_order :: "('k \<rightharpoonup> 'v) \<Rightarrow> 'k list \<Rightarrow> bool" where
  "range_order m order = (distinct order \<and> set order = dom m)"

definition range_keys :: "('k \<rightharpoonup> 'v) \<Rightarrow> 'k list \<Rightarrow> 'k list" where
  "range_keys m order = filter (\<lambda>k. m k \<noteq> None) order"

section \<open>Fan-out: \<open>queryProviders\<close> (lines 86-110)\<close>

text \<open>
  The shared state of one fan-out: the two maps guarded by the mutex, and the log of the
  \<open>Query\<close> invocations made so far (provider name and prompt), which is the effect the
  claims about invocation counts speak of. Calls of the logger change neither map and are
  left out.
\<close>

record fanout =
  results :: "string \<rightharpoonup> string"
  errs :: "string \<rightharpoonup> error"
  calls :: "(string \<times> string) list"

text \<open>
  One goroutine of the loop body is in one of two places: \<open>Spawned\<close>, before its call
  \<open>prov.Query(ctx, prompt, nil)\<close> (line 96), or \<open>Answered\<close>, holding the returned pair and
  waiting for \<open>mu.Lock()\<close> (line 97). A step of a \<open>Spawned\<close> goroutine makes the call; a
  step of an \<open>Answered\<close> goroutine is the critical section of lines 97-105, after which
  the goroutine is done (\<open>wg.Done\<close>).
\<close>

datatype goroutine = Spawned Provider | Answered Provider string "error option"

fun goroutine_step ::
  "go_context \<Rightarrow> string \<Rightarrow> goroutine \<Rightarrow> fanout \<Rightarrow> goroutine option \<times> fanout"
where
  "goroutine_step ctx prompt (Spawned prov) st =
     (case Query prov ctx prompt None of
        (answer, err) \<Rightarrow>
          (Some (Answered prov answer err),
           st\<lparr>calls := calls st @ [(Name prov, prompt)]\<rparr>))"
| "goroutine_step ctx prompt (Answered prov answer err) st =
     (case err of
        Some e \<Rightarrow> (None, st\<lparr>errs := (errs st)(Name prov \<mapsto> e)\<rparr>)
      | None \<Rightarrow> (None, st\<lparr>results := (results st)(Name prov \<mapsto> answer)\<rparr>))"

text \<open>
  The scheduler: \<open>sched\<close> lists the runtime's choices, each read modulo the number of
  goroutines still running; when the list is used up the first goroutine runs.
  \<open>wg.Wait()\<close> (line 108) returns when no goroutine is left.
\<close>

definition pick :: "nat list \<Rightarrow> nat \<Rightarrow> nat" where
  "pick sched n = (case sched of [] \<Rightarrow> 0 | c # _ \<Rightarrow> c mod n)"

fun weight :: "goroutine \<Rightarrow> nat" where
  "weight (Spawned prov) = 2"
| "weight (Answered prov answer err) = 1"

function run_goroutines ::
  "go_context \<Rightarrow> string \<Rightarrow> nat list \<Rightarrow> goroutine list \<Rightarrow> fanout \<Rightarrow> fanout"
where
  "run_goroutines ctx prompt sched pool st =
     (if pool = [] then st
      else
        (let i = pick sched (length pool) in
         case goroutine_step ctx prompt (pool ! i) st of
           (Some g, st') \<Rightarrow> run_goroutines ctx prompt (tl sched) (pool[i := g]) st'
         | (None, st') \<Rightarrow>
             run_goroutines ctx prompt (tl sched) (take i pool @ drop (Suc i) pool) st'))"
  by pat_completeness auto

lemma pick_less: "pool \<noteq> [] \<Longrightarrow> pick sched (length pool) < length pool"
  by (simp add: pick_def split: list.split)

lemma weight_pos: "0 < weight g"
  by (cases g) simp_all

lemma step_Some_weight:
  "goroutine_step ctx prompt g st = (Some g', st') \<Longrightarrow> weight g' < weight g"
  by (cases g) (auto split: prod.splits option.splits)

lemma weight_update:
  assumes "i < length pool" and "weight g' < weight (pool ! i)"
  shows "sum_list (map weight (pool[i := g'])) < sum_list (map weight pool)"
proof -
  have "pool = take i pool @ pool ! i # drop (Suc i) pool"
    using assms(1) by (rule id_take_nth_drop)
  then have a: "sum_list (map weight pool) =
      sum_list (map weight (take i pool)) + weight (pool ! i)
        + sum_list (map weight (drop (Suc i) pool))"
    by (metis map_append list.simps(9) sum_list.Cons sum_list.append add.assoc)
  have "pool[i := g'] = take i pool @ g' # drop (Suc i) pool"
    using assms(1) by (rule upd_conv_take_nth_drop)
  then have b: "sum_list (map weight (pool[i := g'])) =
      sum_list (map weight (take i pool)) + weight g'
        + sum_list (map weight (drop (Suc i) pool))"
    by simp
  show ?thesis using a b assms(2) by simp
qed

lemma weight_remove:
  assumes "i < length pool"
  shows "sum_list (map weight (take i pool @ drop (Suc i) pool)) < sum_list (map weight pool)"
proof -
  have "pool = take i pool @ pool ! i # drop (Suc i) pool"
    using assms by (rule id_take_nth_drop)
  then have "sum_list (map weight pool) =
      sum_list (map weight (take i pool)) + weight (pool ! i)
        + sum_list (map weight (drop (Suc i) pool))"
    by (metis map_append list.simps(9) sum_list.Cons sum_list.append add.assoc)
  then show ?thesis using weight_pos [of "pool ! i"] by simp
qed

termination run_goroutines
proof (relation "measure (\<lambda>(ctx, prompt, sched, pool, st). sum_list (map weight pool))")
  show "wf (measure (\<lambda>(ctx, prompt, sched, pool, st). sum_list (map weight pool)))"
    by simp
next
  fix ctx :: go_context and prompt :: string and sched :: "nat list"
    and pool :: "goroutine list" and st :: fanout and i g' st'
  assume "pool \<noteq> []" "i = pick sched (length pool)"
    "(g', st') = goroutine_step ctx prompt (pool ! i) st" "g' = None"
  then show "((ctx, prompt, tl sched, take i pool @ drop (Suc i) pool, st'),
      ctx, prompt, sched, pool, st)
      \<in> measure (\<lambda>(ctx, prompt, sched, pool, st). sum_list (map weight pool))"
    using weight_remove [of i pool] pick_less [of pool sched]
    by simp
next
  fix ctx :: go_context and prompt :: string and sched :: "nat list"
    and pool :: "goroutine list" and st :: fanout and i g' st' g
  assume "pool \<noteq> []" "i = pick sched (length pool)"
    "(g', st') = goroutine_step ctx prompt (pool ! i) st" "g' = Some g"
  then show "((ctx, prompt, tl sched, pool[i := g], st'), ctx, prompt, sched, pool, st)
      \<in> measure (\<lambda>(ctx, prompt, sched, pool, st). sum_list (map weight pool))"
    using weight_update [of i pool g] pick_less [of pool sched]
      step_Some_weight [of ctx prompt "pool ! i" st g st']
    by simp
qed

declare run_goroutines.simps [simp del]

text \<open>
  \<open>queryProviders\<close>: one goroutine per provider, run to completion under the schedule,
  from two empty maps. The result is the final shared state: its \<open>results\<close> and \<open>errs\<close>
  are the two maps the Go function returns.
\<close>

definition queryProviders ::
  "go_context \<Rightarrow> Provider list \<Rightarrow> string \<Rightarrow> nat list \<Rightarrow> fanout"
where
  "queryProviders ctx providers prompt sched =
     run_goroutines ctx prompt sched (map Spawned providers)
       \<lparr>results = Map.empty, errs = Map.empty, calls = []\<rparr>"

section \<open>Summarizer selection and summarization (lines 112-128)\<close>

fun findSummarizerProvider :: "Provider list \<Rightarrow> string \<Rightarrow> Provider option" where
  "findSummarizerProvider [] name = None"
| "findSummarizerProvider (p # providers) name =
     (if Name p = name \<and> Enabled p then Some p
      else findSummarizerProvider providers name)"

text \<open>\<open>fmt.Sprintf("[%s]: %s\n", name, answer)\<close> (line 124).\<close>

definition Sprintf_entry :: "string \<Rightarrow> string \<Rightarrow> string" where
  "Sprintf_entry name answer = ''['' @ name @ '']: '' @ answer @ [CHR 0x0A]"

definition summary_header :: string where
  "summary_header = ''Summarize and provide a verdict for these answers:'' @ [CHR 0x0A]"

text \<open>The loop of lines 123-125 over the keys in the runtime's order.\<close>

fun summary_loop :: "(string \<rightharpoonup> string) \<Rightarrow> string list \<Rightarrow> string \<Rightarrow> string" where
  "summary_loop answers [] prompt = prompt"
| "summary_loop answers (name # order) prompt =
     (case answers name of
        None \<Rightarrow> summary_loop answers order prompt
      | Some answer \<Rightarrow> summary_loop answers order (prompt @ Sprintf_entry name answer))"

definition summary_prompt :: "(string \<rightharpoonup> string) \<Rightarrow> string list \<Rightarrow> string" where
  "summary_prompt answers order = summary_loop answers order summary_header"

text \<open>
  \<open>summarizeAnswers\<close> returns what the provider's \<open>Query\<close> returns for the synthesized
  prompt, and appends that invocation to the log.
\<close>

definition summarizeAnswers ::
  "go_context \<Rightarrow> Provider \<Rightarrow> (string \<rightharpoonup> string) \<Rightarrow> string list \<Rightarrow> (string \<times> string) list
     \<Rightarrow> (string \<times> error option) \<times> (string \<times> string) list"
where
  "summarizeAnswers ctx provider answers order log =
     (let prompt = summary_prompt answers order
      in (Query provider ctx prompt None, log @ [(Name provider, prompt)]))"

section \<open>Configuration and credentials (lines 40-84)\<close>

text \<open>
  \<open>strings.ToUpper\<close> (line 57) is a function of Go's standard library, not of this
  repository: it maps every letter of a UTF-8 string, ASCII or not, to its upper case.
  The model does not define it. \<open>loadAPIKeys\<close> takes it as its first argument
  \<open>ToUpper\<close>, and \<open>main\<close> takes it from the world it runs in, so every statement about
  them holds whatever the library function is.
\<close>

text \<open>\<open>os.Getenv\<close>: the value of the variable, and the empty string when it is unset.\<close>

definition os_Getenv :: "(string \<rightharpoonup> string) \<Rightarrow> string \<Rightarrow> string" where
  "os_Getenv env key = (case env key of None \<Rightarrow> [] | Some v \<Rightarrow> v)"

fun loadAPIKeys_loop ::
  "(string \<Rightarrow> string) \<Rightarrow> (string \<rightharpoonup> string) \<Rightarrow> string list \<Rightarrow> (string \<rightharpoonup> string)
     \<Rightarrow> (string \<rightharpoonup> string)"
where
  "loadAPIKeys_loop ToUpper env [] apiKeys = apiKeys"
| "loadAPIKeys_loop ToUpper env (name # providerNames) apiKeys =
     (let envKey = ToUpper name @ ''_API_KEY'';
          apiKey = os_Getenv env envKey
      in loadAPIKeys_loop ToUpper env providerNames (apiKeys(name \<mapsto> apiKey)))"

text \<open>
  \<open>loadAPIKeys\<close> (lines 54-62), with the library's \<open>strings.ToUpper\<close> as \<open>ToUpper\<close>, in
  the process environment \<open>env\<close>.
\<close>

definition loadAPIKeys ::
  "(string \<Rightarrow> string) \<Rightarrow> (string \<rightharpoonup> string) \<Rightarrow> string list \<Rightarrow> (string \<rightharpoonup> string)"
where
  "loadAPIKeys ToUpper env providerNames =
     loadAPIKeys_loop ToUpper env providerNames Map.empty"

text \<open>Reading a missing key of a Go map gives the zero value.\<close>

definition lookup_bool :: "(string \<rightharpoonup> bool) \<Rightarrow> string \<Rightarrow> bool" where
  "lookup_bool m k = (case m k of None \<Rightarrow> False | Some b \<Rightarrow> b)"

definition lookup_string :: "(string \<rightharpoonup> string) \<Rightarrow> string \<Rightarrow> string" where
  "lookup_string m k = (case m k of None \<Rightarrow> [] | Some v \<Rightarrow> v)"

text \<open>\<open>getEnabledProviders\<close> (lines 72-84): the registry holds the one OpenAI provider.\<close>

definition allProviders :: "Config \<Rightarrow> (string \<rightharpoonup> string) \<Rightarrow> Provider list" where
  "allProviders cfg apiKeys =
     [OpenAIProvider_iface
        \<lparr>enabled = lookup_bool (EnabledProviders cfg) ''openai'',
         apiKey = lookup_string apiKeys ''openai''\<rparr>]"

definition getEnabledProviders :: "Config \<Rightarrow> (string \<rightharpoonup> string) \<Rightarrow> Provider list" where
  "getEnabledProviders cfg apiKeys = filter Enabled (allProviders cfg apiKeys)"

section \<open>The orchestrator: \<open>main\<close> (lines 130-199)\<close>

text \<open>
  What one run takes from outside the program: the command-line flags (\<open>None\<close> when a
  flag is not given), the outcome of building the logger, the file system and the JSON
  decoder behind \<open>loadConfig\<close>, the outcome of \<open>godotenv.Load\<close> (an error, or the process
  environment after the load), the library function \<open>strings.ToUpper\<close>, and the
  runtime's choices: the order of the range over the configuration map, the goroutine
  schedule and the order of the range over the results map.
\<close>

record world =
  flag_prompt :: "string option"
  flag_summarizer :: "string option"
  flag_config :: "string option"
  flag_env :: "string option"
  flag_debug :: "bool option"
  zap_Build :: "bool \<Rightarrow> error option"
  os_Open :: "string \<Rightarrow> error + string"
  json_Decode :: "string \<Rightarrow> error + Config"
  godotenv_Load :: "string \<Rightarrow> error + (string \<rightharpoonup> string)"
  strings_ToUpper :: "string \<Rightarrow> string"
  config_range :: "string list"
  goroutine_sched :: "nat list"
  results_range :: "string list"

text \<open>
  How a run ends: \<open>Exit1\<close> is the message on standard error before \<open>os.Exit(1)\<close> of lines
  140-141, \<open>Fatal\<close> is the message of a \<open>logger.Fatal\<close> (which exits with status 1), and
  \<open>Exit0\<close> is the lines printed on standard output by a run that reaches line 198.
\<close>

datatype exit = Exit1 string | Fatal string | Exit0 "string list"

definition flag_or :: "'a option \<Rightarrow> 'a \<Rightarrow> 'a" where
  "flag_or given dflt = (case given of None \<Rightarrow> dflt | Some v \<Rightarrow> v)"

definition error_text :: "error \<Rightarrow> string" where
  "error_text e = (case e of Error msg \<Rightarrow> msg)"

text \<open>\<open>loadConfig\<close> (lines 40-52): opening the file may fail, and decoding may fail.\<close>

definition loadConfig :: "world \<Rightarrow> string \<Rightarrow> error + Config" where
  "loadConfig w path =
     (case os_Open w path of
        Inl err \<Rightarrow> Inl err
      | Inr f \<Rightarrow> (case json_Decode w f of Inl err \<Rightarrow> Inl err | Inr cfg \<Rightarrow> Inr cfg))"

text \<open>\<open>setupLogger\<close> (lines 64-70): the error of \<open>loggerCfg.Build()\<close>, if any.\<close>

definition setupLogger :: "world \<Rightarrow> bool \<Rightarrow> error option" where
  "setupLogger w debug = zap_Build w debug"

text \<open>
  Lines 178-198 of \<open>main\<close>, from the enabled providers on: fan-out, the check that some
  provider answered, the selection of the summarizer, the summarization and the output.
  The result is how the run ends, with the log of every \<open>Query\<close> invocation of the run.
\<close>

definition main_query_phase ::
  "go_context \<Rightarrow> Provider list \<Rightarrow> string \<Rightarrow> string \<Rightarrow> nat list \<Rightarrow> string list
     \<Rightarrow> exit \<times> (string \<times> string) list"
where
  "main_query_phase ctx enabledProviders prompt summarizer sched order =
     (let st = queryProviders ctx enabledProviders prompt sched in
      if dom (results st) = {} then (Fatal ''No providers returned an answer'', calls st)
      else
        (case findSummarizerProvider enabledProviders summarizer of
           None \<Rightarrow> (Fatal ''Summarizer provider not found or not enabled'', calls st)
         | Some summarizerProvider \<Rightarrow>
             (case summarizeAnswers ctx summarizerProvider (results st) order (calls st) of
                ((summary, Some err), log) \<Rightarrow> (Fatal ''Summarizer failed'', log)
              | ((summary, None), log) \<Rightarrow>
                  (Exit0 [''----- Final Verdict -----'', summary], log))))"

text \<open>\<open>main\<close> up to line 176, then the query phase.\<close>

definition main :: "world \<Rightarrow> exit \<times> (string \<times> string) list" where
  "main w =
     (let prompt = flag_or (flag_prompt w) [];
          summarizer = flag_or (flag_summarizer w) ''openai'';
          configPath = flag_or (flag_config w) ''config.json'';
          envPath = flag_or (flag_env w) ''.env'';
          debug = flag_or (flag_debug w) False
      in
        case setupLogger w debug of
          Some err \<Rightarrow>
            (Exit1 (''Logger setup failed: '' @ error_text err @ [CHR 0x0A]), [])
        | None \<Rightarrow>
            if prompt = [] then (Fatal ''Prompt is required'', [])
            else
              (case loadConfig w configPath of
                 Inl err \<Rightarrow> (Fatal ''Failed to load config'', [])
               | Inr cfg0 \<Rightarrow>
                   (let cfg = cfg0\<lparr>Debug := debug\<rparr> in
                    case godotenv_Load w envPath of
                      Inl err \<Rightarrow> (Fatal ''Failed to load .env file'', [])
                    | Inr env \<Rightarrow>
                        (let providerNames =
                               range_keys (EnabledProviders cfg) (config_range w);
                             apiKeys = loadAPIKeys (strings_ToUpper w) env providerNames;
                             ctx = WithTimeout Background 60;
                             enabledProviders = getEnabledProviders cfg apiKeys
                         in
                           if length enabledProviders = 0
                           then (Fatal ''No enabled LLM providers'', [])
                           else main_query_phase ctx enabledProviders prompt summarizer
                                  (goroutine_sched w) (results_range w)))))"

section \<open>What a pool of goroutines will do\<close>

text \<open>
  For the proofs: the name a goroutine writes under, the pair its \<open>Query\<close> returned or
  will return, and the invocation it still has to make.
\<close>

fun g_name :: "goroutine \<Rightarrow> string" where
  "g_name (Spawned prov) = Name prov"
| "g_name (Answered prov answer err) = Name prov"

fun g_outcome :: "go_context \<Rightarrow> string \<Rightarrow> goroutine \<Rightarrow> string \<times> error option" where
  "g_outcome ctx prompt (Spawned prov) = Query prov ctx prompt None"
| "g_outcome ctx prompt (Answered prov answer err) = (answer, err)"

fun to_call :: "string \<Rightarrow> goroutine \<Rightarrow> (string \<times> string) list" where
  "to_call prompt (Spawned prov) = [(Name prov, prompt)]"
| "to_call prompt (Answered prov answer err) = []"

definition outcomes :: "go_context \<Rightarrow> string \<Rightarrow> goroutine list \<Rightarrow> (string \<times> string \<times> error option) list" where
  "outcomes ctx prompt pool = map (\<lambda>g. (g_name g, g_outcome ctx prompt g)) pool"

text \<open>A provider succeeds on a prompt when its \<open>Query\<close> returns a \<open>nil\<close> error.\<close>

definition succeeds :: "go_context \<Rightarrow> string \<Rightarrow> Provider \<Rightarrow> bool" where
  "succeeds ctx prompt p = (snd (Query p ctx prompt None) = None)"

section \<open>The providers of the specification's scenario\<close>

text \<open>
  Providers to evaluate the model on: \<open>A\<close> and \<open>C\<close> answer, \<open>B\<close> fails with a timeout,
  a second provider named \<open>A\<close> gives another answer, \<open>D\<close> is disabled and \<open>E\<close> fails
  as well. \<open>Q\<close> answers with two lines of text, the second of which reads like the
  entry of a provider \<open>B\<close>, and \<open>scenario_A_failing\<close> is a failing provider that is also
  named \<open>A\<close>.
\<close>

definition scenario_A :: Provider where
  "scenario_A = \<lparr>Name = ''A'', Enabled = True,
     Query = (\<lambda>ctx prompt extra. (''ans-A'', None))\<rparr>"

definition scenario_B :: Provider where
  "scenario_B = \<lparr>Name = ''B'', Enabled = True,
     Query = (\<lambda>ctx prompt extra. ([], Some (Error ''timeout'')))\<rparr>"

definition scenario_C :: Provider where
  "scenario_C = \<lparr>Name = ''C'', Enabled = True,
     Query = (\<lambda>ctx prompt extra. (''ans-C'', None))\<rparr>"

definition scenario_A' :: Provider where
  "scenario_A' = \<lparr>Name = ''A'', Enabled = True,
     Query = (\<lambda>ctx prompt extra. (''another answer'', None))\<rparr>"

definition scenario_D :: Provider where
  "scenario_D = \<lparr>Name = ''D'', Enabled = False,
     Query = (\<lambda>ctx prompt extra. (''ans-D'', None))\<rparr>"

definition scenario_E :: Provider where
  "scenario_E = \<lparr>Name = ''E'', Enabled = True,
     Query = (\<lambda>ctx prompt extra. ([], Some (Error ''connection refused'')))\<rparr>"

definition scenario_Q :: Provider where
  "scenario_Q = \<lparr>Name = ''Q'', Enabled = True,
     Query = (\<lambda>ctx prompt extra. (''x'' @ [CHR 0x0A] @ ''[B]: timeout'', None))\<rparr>"

definition scenario_A_failing :: Provider where
  "scenario_A_failing = \<lparr>Name = ''A'', Enabled = True,
     Query = (\<lambda>ctx prompt extra. ([], Some (Error ''timeout'')))\<rparr>"

lemmas scenario_defs =
  scenario_A_def scenario_B_def scenario_C_def scenario_A'_def scenario_D_def scenario_E_def
  scenario_Q_def scenario_A_failing_def

section \<open>Runs of \<open>main\<close> to evaluate\<close>

text \<open>
  For the evaluated runs only, whose provider names are ASCII: on a string of ASCII
  bytes \<open>strings.ToUpper\<close> moves the letters \<open>a\<close> to \<open>z\<close> to \<open>A\<close> to \<open>Z\<close> and keeps every
  other byte. \<open>ascii_ToUpper\<close> is that function; no theorem about all names rests on it.
\<close>

definition ascii_ToUpper_byte :: "char \<Rightarrow> char" where
  "ascii_ToUpper_byte c =
     (let n = (of_char c :: nat) in if 97 \<le> n \<and> n \<le> 122 then char_of (n - 32) else c)"

definition ascii_ToUpper :: "string \<Rightarrow> string" where
  "ascii_ToUpper s = map ascii_ToUpper_byte s"

text \<open>
  A run with the prompt \<open>hi\<close>, a configuration that enables \<open>openai\<close> and an environment
  in which no variable is set; the same run with a configuration file that cannot be
  opened, and with a \<open>.env\<close> file that cannot be loaded. \<open>echo_prompt\<close> is the text of
  the synthesized prompt for the single answer \<open>ans-A\<close> of provider \<open>A\<close>.
\<close>

definition world_no_key :: world where
  "world_no_key =
     \<lparr>flag_prompt = Some ''hi'', flag_summarizer = None, flag_config = None,
      flag_env = None, flag_debug = None,
      zap_Build = (\<lambda>debug. None),
      os_Open = (\<lambda>path. Inr ''the bytes of config.json''),
      json_Decode = (\<lambda>f. Inr \<lparr>EnabledProviders = [''openai'' \<mapsto> True], Debug = False\<rparr>),
      godotenv_Load = (\<lambda>path. Inr Map.empty),
      strings_ToUpper = ascii_ToUpper,
      config_range = [''openai''], goroutine_sched = [], results_range = [''openai'']\<rparr>"

definition world_no_config :: world where
  "world_no_config = world_no_key\<lparr>os_Open := (\<lambda>path. Inl (Error ''no such file''))\<rparr>"

definition world_no_env :: world where
  "world_no_env = world_no_key\<lparr>godotenv_Load := (\<lambda>path. Inl (Error ''no such file''))\<rparr>"

definition echo_prompt :: string where
  "echo_prompt = summary_header @ Sprintf_entry ''A'' ''ans-A''"

section \<open>An induction rule for the fan-out\<close>

text \<open>
  Whatever the schedule, a relation between a pool, a shared state and the final state
  holds of every run when it holds of the empty pool and is preserved backwards by the
  three kinds of step.
\<close>

lemma run_goroutines_rule:
  assumes nil: "\<And>st. R [] st st"
    and query: "\<And>pool st i prov answer err fin.
      i < length pool \<Longrightarrow> pool ! i = Spawned prov \<Longrightarrow>
      Query prov ctx prompt None = (answer, err) \<Longrightarrow>
      R (pool[i := Answered prov answer err])
        (st\<lparr>calls := calls st @ [(Name prov, prompt)]\<rparr>) fin \<Longrightarrow>
      R pool st fin"
    and failed: "\<And>pool st i prov answer e fin.
      i < length pool \<Longrightarrow> pool ! i = Answered prov answer (Some e) \<Longrightarrow>
      R (take i pool @ drop (Suc i) pool) (st\<lparr>errs := (errs st)(Name prov \<mapsto> e)\<rparr>) fin \<Longrightarrow>
      R pool st fin"
    and answered: "\<And>pool st i prov answer fin.
      i < length pool \<Longrightarrow> pool ! i = Answered prov answer None \<Longrightarrow>
      R (take i pool @ drop (Suc i) pool)
        (st\<lparr>results := (results st)(Name prov \<mapsto> answer)\<rparr>) fin \<Longrightarrow>
      R pool st fin"
  shows "R pool st (run_goroutines ctx prompt sched pool st)"
proof (induction "sum_list (map weight pool)" arbitrary: sched pool st rule: less_induct)
  case less
  show ?case
  proof (cases "pool = []")
    case True
    then show ?thesis using nil by (simp add: run_goroutines.simps)
  next
    case False
    define i where "i = pick sched (length pool)"
    have i: "i < length pool" using False pick_less i_def by simp
    show ?thesis
    proof (cases "pool ! i")
      case (Spawned prov)
      obtain answer err where q: "Query prov ctx prompt None = (answer, err)"
        by fastforce
      have run: "run_goroutines ctx prompt sched pool st =
          run_goroutines ctx prompt (tl sched) (pool[i := Answered prov answer err])
            (st\<lparr>calls := calls st @ [(Name prov, prompt)]\<rparr>)"
        using False Spawned q
        by (subst run_goroutines.simps) (simp add: i_def [symmetric])
      have "sum_list (map weight (pool[i := Answered prov answer err]))
          < sum_list (map weight pool)"
        using weight_update [OF i, of "Answered prov answer err"] Spawned by simp
      from less [OF this] show ?thesis
        unfolding run by (rule query [OF i Spawned q])
    next
      case (Answered prov answer err)
      have smaller: "sum_list (map weight (take i pool @ drop (Suc i) pool))
          < sum_list (map weight pool)"
        using weight_remove [OF i] .
      show ?thesis
      proof (cases err)
        case None
        have run: "run_goroutines ctx prompt sched pool st =
            run_goroutines ctx prompt (tl sched) (take i pool @ drop (Suc i) pool)
              (st\<lparr>results := (results st)(Name prov \<mapsto> answer)\<rparr>)"
          using False Answered None
          by (subst run_goroutines.simps) (simp add: i_def [symmetric])
        from less [OF smaller] show ?thesis
          unfolding run using Answered None by (intro answered [OF i]) simp_all
      next
        case (Some e)
        have run: "run_goroutines ctx prompt sched pool st =
            run_goroutines ctx prompt (tl sched) (take i pool @ drop (Suc i) pool)
              (st\<lparr>errs := (errs st)(Name prov \<mapsto> e)\<rparr>)"
          using False Answered Some
          by (subst run_goroutines.simps) (simp add: i_def [symmetric])
        from less [OF smaller] show ?thesis
          unfolding run using Answered Some by (intro failed [OF i]) simp_all
      qed
    qed
  qed
qed

lemma outcomes_query:
  assumes "i < length pool" "pool ! i = Spawned prov" "Query prov ctx prompt None = (answer, err)"
  shows "outcomes ctx prompt (pool[i := Answered prov answer err]) = outcomes ctx prompt pool"
proof -
  have "(outcomes ctx prompt pool) [i := (Name prov, answer, err)] = outcomes ctx prompt pool"
    using assms by (intro list_update_same_conv [THEN iffD2]) (simp_all add: outcomes_def)
  then show ?thesis by (simp add: outcomes_def map_update)
qed

lemma outcomes_remove:
  assumes "i < length pool" "pool ! i = Answered prov answer err"
  shows "set (outcomes ctx prompt pool)
    = insert (Name prov, answer, err) (set (outcomes ctx prompt (take i pool @ drop (Suc i) pool)))"
proof -
  have "set (outcomes ctx prompt pool) =
      set (outcomes ctx prompt (take i pool @ pool ! i # drop (Suc i) pool))"
    using id_take_nth_drop [OF assms(1)]
    by (rule arg_cong [where f = "\<lambda>p. set (outcomes ctx prompt p)"])
  also have "\<dots> = insert (Name prov, answer, err)
      (set (outcomes ctx prompt (take i pool @ drop (Suc i) pool)))"
    using assms(2) by (simp add: outcomes_def)
  finally show ?thesis .
qed

lemma dom_results_run:
  "dom (results (run_goroutines ctx prompt sched pool st)) =
     dom (results st) \<union> {n. \<exists>a. (n, a, None) \<in> set (outcomes ctx prompt pool)}"
proof (rule run_goroutines_rule [where R = "\<lambda>pool st fin. dom (results fin) =
     dom (results st) \<union> {n. \<exists>a. (n, a, None) \<in> set (outcomes ctx prompt pool)}"], goal_cases)
  case (1 st)
  show ?case by (simp add: outcomes_def)
next
  case (2 pool st i prov answer err fin)
  then show ?case by (simp add: outcomes_query)
next
  case (3 pool st i prov answer e fin)
  then show ?case by (simp add: outcomes_remove [OF 3(1,2)])
next
  case (4 pool st i prov answer fin)
  then show ?case by (auto simp add: outcomes_remove [OF 4(1,2)])
qed

lemma dom_errs_run:
  "dom (errs (run_goroutines ctx prompt sched pool st)) =
     dom (errs st) \<union> {n. \<exists>a e. (n, a, Some e) \<in> set (outcomes ctx prompt pool)}"
proof (rule run_goroutines_rule [where R = "\<lambda>pool st fin. dom (errs fin) =
     dom (errs st) \<union> {n. \<exists>a e. (n, a, Some e) \<in> set (outcomes ctx prompt pool)}"], goal_cases)
  case (1 st)
  show ?case by (simp add: outcomes_def)
next
  case (2 pool st i prov answer err fin)
  then show ?case by (simp add: outcomes_query)
next
  case (3 pool st i prov answer e fin)
  then show ?case by (auto simp add: outcomes_remove [OF 3(1,2)])
next
  case (4 pool st i prov answer fin)
  then show ?case by (simp add: outcomes_remove [OF 4(1,2)])
qed

section \<open>The empty provider list\<close>

text \<open>
  Claim C9. For the empty provider list \<open>queryProviders\<close> returns two empty mappings,
  under every schedule and with no \<open>Query\<close> invocation: no goroutine is started, so
  \<open>wg.Wait()\<close> returns at once. The query phase of \<open>main\<close> then finds
  \<open>len(results) == 0\<close> and ends the run with the fatal message of total failure.
\<close>

theorem queryProviders_empty_total:
  "results (queryProviders ctx [] prompt sched) = Map.empty
   \<and> errs (queryProviders ctx [] prompt sched) = Map.empty
   \<and> calls (queryProviders ctx [] prompt sched) = []
   \<and> main_query_phase ctx [] prompt summarizer sched order
       = (Fatal ''No providers returned an answer'', [])"
  by (simp add: queryProviders_def main_query_phase_def run_goroutines.simps)

section \<open>The key sets of the two mappings\<close>

lemma outcomes_Spawned:
  "outcomes ctx prompt (map Spawned ps) = map (\<lambda>p. (Name p, Query p ctx prompt None)) ps"
  by (simp add: outcomes_def)

lemma dom_results_queryProviders:
  "dom (results (queryProviders ctx ps prompt sched))
     = set (map Name (filter (succeeds ctx prompt) ps))"
proof -
  have "{n. \<exists>a. (n, a, None) \<in> set (map (\<lambda>p. (Name p, Query p ctx prompt None)) ps)}
      = set (map Name (filter (succeeds ctx prompt) ps))"
    by (auto simp: succeeds_def image_iff) (metis snd_conv, metis prod.collapse)
  then show ?thesis
    by (simp add: queryProviders_def dom_results_run outcomes_Spawned)
qed

lemma dom_errs_queryProviders:
  "dom (errs (queryProviders ctx ps prompt sched))
     = set (map Name (filter (\<lambda>p. \<not> succeeds ctx prompt p) ps))"
proof -
  have "{n. \<exists>a e. (n, a, Some e) \<in> set (map (\<lambda>p. (Name p, Query p ctx prompt None)) ps)}
      = set (map Name (filter (\<lambda>p. \<not> succeeds ctx prompt p) ps))"
    by (auto simp: succeeds_def image_iff) (metis snd_conv, metis prod.collapse)
  then show ?thesis
    by (simp add: queryProviders_def dom_errs_run outcomes_Spawned)
qed

text \<open>
  Claim C1. For every list of providers with pairwise distinct names (the empty list
  included), under every schedule, the sizes of the results mapping and of the errors
  mapping add up to the number of providers, the two key sets are disjoint, and
  together they are the set of the providers' names.
\<close>

theorem fanout_partition:
  assumes "distinct (map Name providers)"
  shows "card (dom (results (queryProviders ctx providers prompt sched)))
       + card (dom (errs (queryProviders ctx providers prompt sched))) = length providers
     \<and> dom (results (queryProviders ctx providers prompt sched))
       \<inter> dom (errs (queryProviders ctx providers prompt sched)) = {}
     \<and> dom (results (queryProviders ctx providers prompt sched))
       \<union> dom (errs (queryProviders ctx providers prompt sched)) = set (map Name providers)"
proof -
  let ?ok = "filter (succeeds ctx prompt) providers"
  let ?ko = "filter (\<lambda>p. \<not> succeeds ctx prompt p) providers"
  have d1: "distinct (map Name ?ok)" and d2: "distinct (map Name ?ko)"
    using assms by (simp_all add: distinct_map_filter)
  have "card (set (map Name ?ok)) + card (set (map Name ?ko)) = length ?ok + length ?ko"
    using distinct_card [OF d1] distinct_card [OF d2] by simp
  also have "\<dots> = length providers"
    by (rule sum_length_filter_compl)
  finally have c: "card (set (map Name ?ok)) + card (set (map Name ?ko)) = length providers" .
  have inj: "inj_on Name (set providers)"
    using assms by (simp add: distinct_map)
  have disj: "set (map Name ?ok) \<inter> set (map Name ?ko) = {}"
  proof (rule ccontr)
    assume "set (map Name ?ok) \<inter> set (map Name ?ko) \<noteq> {}"
    then obtain p q where "p \<in> set providers" "q \<in> set providers" "Name p = Name q"
      "succeeds ctx prompt p" "\<not> succeeds ctx prompt q"
      by auto
    then show False using inj by (auto dest: inj_onD)
  qed
  have un: "set (map Name ?ok) \<union> set (map Name ?ko) = set (map Name providers)"
    by auto
  show ?thesis
    using c disj un by (simp only: dom_results_queryProviders dom_errs_queryProviders)
qed

theorem fanout_partition_witness:
  "distinct (map Name [scenario_A, scenario_B, scenario_C])
   \<and> card (dom (results (queryProviders Background [scenario_A, scenario_B, scenario_C] ''q'' [2, 0, 1, 1])))
     + card (dom (errs (queryProviders Background [scenario_A, scenario_B, scenario_C] ''q'' [2, 0, 1, 1])))
     = 3
   \<and> dom (results (queryProviders Background [scenario_A, scenario_B, scenario_C] ''q'' [2, 0, 1, 1]))
     \<inter> dom (errs (queryProviders Background [scenario_A, scenario_B, scenario_C] ''q'' [2, 0, 1, 1])) = {}
   \<and> dom (results (queryProviders Background [scenario_A, scenario_B, scenario_C] ''q'' [2, 0, 1, 1]))
     \<union> dom (errs (queryProviders Background [scenario_A, scenario_B, scenario_C] ''q'' [2, 0, 1, 1]))
     = {''A'', ''B'', ''C''}"
proof -
  have h: "distinct (map Name [scenario_A, scenario_B, scenario_C])"
    by (simp add: scenario_defs)
  have n: "set (map Name [scenario_A, scenario_B, scenario_C]) = {''A'', ''B'', ''C''}"
    by (simp add: scenario_defs)
  show ?thesis
    using h n fanout_partition [OF h, of Background "''q''" "[2, 0, 1, 1]"] by simp
qed

lemma same_pattern_names:
  assumes "list_all2 (\<lambda>p q. Name p = Name q \<and> (P p \<longleftrightarrow> Q q)) ps qs"
  shows "map Name (filter P ps) = map Name (filter Q qs)"
  using assms by (induction rule: list_all2_induct) auto

text \<open>
  Claim C7. Two fan-outs over provider lists with the same names, in which each
  provider succeeds in one run exactly when it succeeds in the other (its answers may
  differ), give the same key set of results and the same key set of errors, whatever
  the two schedules are.
\<close>

theorem fanout_key_sets_deterministic:
  assumes "list_all2 (\<lambda>p q. Name p = Name q
      \<and> (succeeds ctx prompt p \<longleftrightarrow> succeeds ctx prompt q)) ps qs"
  shows "dom (results (queryProviders ctx ps prompt sched))
       = dom (results (queryProviders ctx qs prompt sched'))
     \<and> dom (errs (queryProviders ctx ps prompt sched))
       = dom (errs (queryProviders ctx qs prompt sched'))"
proof -
  have a: "map Name (filter (succeeds ctx prompt) ps) = map Name (filter (succeeds ctx prompt) qs)"
    using assms by (rule same_pattern_names)
  have "list_all2 (\<lambda>p q. Name p = Name q
      \<and> ((\<not> succeeds ctx prompt p) \<longleftrightarrow> (\<not> succeeds ctx prompt q))) ps qs"
    using assms by (simp add: list_all2_conv_all_nth)
  then have b: "map Name (filter (\<lambda>p. \<not> succeeds ctx prompt p) ps)
      = map Name (filter (\<lambda>p. \<not> succeeds ctx prompt p) qs)"
    by (rule same_pattern_names)
  show ?thesis
    by (simp only: dom_results_queryProviders dom_errs_queryProviders a b)
qed

theorem fanout_key_sets_deterministic_witness:
  "list_all2 (\<lambda>p q. Name p = Name q
      \<and> (succeeds Background ''q'' p \<longleftrightarrow> succeeds Background ''q'' q))
      [scenario_A, scenario_B, scenario_C] [scenario_A', scenario_B, scenario_C]
   \<and> dom (results (queryProviders Background [scenario_A, scenario_B, scenario_C] ''q'' [2, 0, 1, 1]))
     = dom (results (queryProviders Background [scenario_A', scenario_B, scenario_C] ''q'' [0, 5, 3]))
   \<and> dom (errs (queryProviders Background [scenario_A, scenario_B, scenario_C] ''q'' [2, 0, 1, 1]))
     = dom (errs (queryProviders Background [scenario_A', scenario_B, scenario_C] ''q'' [0, 5, 3]))"
proof -
  have h: "list_all2 (\<lambda>p q. Name p = Name q
      \<and> (succeeds Background ''q'' p \<longleftrightarrow> succeeds Background ''q'' q))
      [scenario_A, scenario_B, scenario_C] [scenario_A', scenario_B, scenario_C]"
    by (simp add: scenario_defs succeeds_def)
  show ?thesis
    using h fanout_key_sets_deterministic [OF h, of "[2, 0, 1, 1]" "[0, 5, 3]"] by simp
qed

section \<open>The invocations of \<open>Query\<close> during the fan-out\<close>

lemma calls_query:
  assumes "i < length pool" "pool ! i = Spawned prov"
  shows "mset (concat (map (to_call prompt) pool))
    = add_mset (Name prov, prompt)
        (mset (concat (map (to_call prompt) (pool[i := Answered prov answer err]))))"
proof -
  have "mset (concat (map (to_call prompt) pool)) =
      mset (concat (map (to_call prompt) (take i pool @ pool ! i # drop (Suc i) pool)))"
    using id_take_nth_drop [OF assms(1)]
    by (rule arg_cong [where f = "\<lambda>p. mset (concat (map (to_call prompt) p))"])
  then show ?thesis
    using assms by (simp add: upd_conv_take_nth_drop)
qed

lemma calls_remove:
  assumes "i < length pool" "pool ! i = Answered prov answer err"
  shows "mset (concat (map (to_call prompt) (take i pool)))
      + mset (concat (map (to_call prompt) (drop (Suc i) pool)))
    = mset (concat (map (to_call prompt) pool))"
proof -
  have "mset (concat (map (to_call prompt) pool)) =
      mset (concat (map (to_call prompt) (take i pool @ pool ! i # drop (Suc i) pool)))"
    using id_take_nth_drop [OF assms(1)]
    by (rule arg_cong [where f = "\<lambda>p. mset (concat (map (to_call prompt) p))"])
  then show ?thesis
    using assms by simp
qed

lemma calls_run:
  "mset (calls (run_goroutines ctx prompt sched pool st))
     = mset (calls st) + mset (concat (map (to_call prompt) pool))"
proof (rule run_goroutines_rule [where R = "\<lambda>pool st fin. mset (calls fin)
     = mset (calls st) + mset (concat (map (to_call prompt) pool))"], goal_cases)
  case (1 st)
  show ?case by simp
next
  case (2 pool st i prov answer err fin)
  then show ?case by (simp add: calls_query [OF 2(1,2), of prompt answer err])
next
  case (3 pool st i prov answer e fin)
  then show ?case by (simp add: calls_remove [OF 3(1,2)])
next
  case (4 pool st i prov answer fin)
  then show ?case by (simp add: calls_remove [OF 4(1,2)])
qed

lemma calls_queryProviders:
  "mset (calls (queryProviders ctx ps prompt sched)) = mset (map (\<lambda>p. (Name p, prompt)) ps)"
proof -
  have "concat (map (to_call prompt) (map Spawned ps)) = map (\<lambda>p. (Name p, prompt)) ps"
    by (induction ps) simp_all
  then show ?thesis
    by (simp add: queryProviders_def calls_run)
qed

text \<open>
  Claim C4. Under every schedule and whatever the other providers do, the log of one
  fan-out holds one invocation per provider of the list, each with the original prompt
  (as multisets: the log is the list of the providers' names paired with the prompt).
  A provider whose query fails has its name in the errors mapping, and its single
  invocation is not repeated: when the names are distinct the log holds its invocation
  exactly once.
\<close>

theorem fanout_queries_each_once:
  "mset (calls (queryProviders ctx providers prompt sched))
     = mset (map (\<lambda>p. (Name p, prompt)) providers)
   \<and> length (calls (queryProviders ctx providers prompt sched)) = length providers
   \<and> (\<forall>p \<in> set providers. \<not> succeeds ctx prompt p \<longrightarrow>
        Name p \<in> dom (errs (queryProviders ctx providers prompt sched)))
   \<and> (distinct (map Name providers) \<longrightarrow>
        (\<forall>p \<in> set providers.
           count (mset (calls (queryProviders ctx providers prompt sched))) (Name p, prompt) = 1))"
proof -
  let ?st = "queryProviders ctx providers prompt sched"
  have m: "mset (calls ?st) = mset (map (\<lambda>p. (Name p, prompt)) providers)"
    by (rule calls_queryProviders)
  have l: "length (calls ?st) = length providers"
    using arg_cong [OF m, of size] by simp
  have e: "\<forall>p \<in> set providers. \<not> succeeds ctx prompt p \<longrightarrow> Name p \<in> dom (errs ?st)"
    by (simp only: dom_errs_queryProviders) auto
  have c: "\<forall>p \<in> set providers. count (mset (calls ?st)) (Name p, prompt) = 1"
    if d: "distinct (map Name providers)"
  proof
    fix p assume p: "p \<in> set providers"
    have "distinct (map (\<lambda>p. (Name p, prompt)) providers)"
      using d by (simp add: distinct_map inj_on_def)
    moreover have "(Name p, prompt) \<in> set (map (\<lambda>p. (Name p, prompt)) providers)"
      using p by auto
    ultimately have "count (mset (map (\<lambda>p. (Name p, prompt)) providers)) (Name p, prompt) = 1"
      by (simp only: distinct_count_atmost_1) simp
    then show "count (mset (calls ?st)) (Name p, prompt) = 1"
      by (simp only: m)
  qed
  show ?thesis using m l e c by blast
qed

theorem fanout_queries_each_once_witness:
  "mset (calls (queryProviders Background [scenario_A, scenario_B, scenario_C] ''q'' [2, 0, 1, 1]))
     = mset [(''A'', ''q''), (''B'', ''q''), (''C'', ''q'')]
   \<and> scenario_B \<in> set [scenario_A, scenario_B, scenario_C]
   \<and> \<not> succeeds Background ''q'' scenario_B
   \<and> ''B'' \<in> dom (errs (queryProviders Background [scenario_A, scenario_B, scenario_C] ''q'' [2, 0, 1, 1]))
   \<and> distinct (map Name [scenario_A, scenario_B, scenario_C])
   \<and> count (mset (calls (queryProviders Background [scenario_A, scenario_B, scenario_C] ''q'' [2, 0, 1, 1])))
        (''B'', ''q'') = 1"
  using fanout_queries_each_once [of Background "[scenario_A, scenario_B, scenario_C]" "''q''" "[2, 0, 1, 1]"]
  by (simp add: scenario_defs succeeds_def)

section \<open>Total failure\<close>

lemma results_empty_iff: "dom (results (queryProviders ctx ps prompt sched)) = {}
    \<longleftrightarrow> (\<forall>p \<in> set ps. \<not> succeeds ctx prompt p)"
  by (simp only: dom_results_queryProviders) (auto simp: filter_empty_conv)

text \<open>
  Claim C2. When every provider of the fan-out fails, the results mapping is empty and
  the query phase of \<open>main\<close> ends with the fatal message of line 181, before the
  summarizer is selected: the invocations of the whole run are those of the fan-out, one
  per provider with the original prompt, and none with a synthesized prompt.
\<close>

theorem all_fail_halts_before_summarization:
  assumes "\<forall>p \<in> set providers. \<not> succeeds ctx prompt p"
  shows "results (queryProviders ctx providers prompt sched) = Map.empty
     \<and> main_query_phase ctx providers prompt summarizer sched order
         = (Fatal ''No providers returned an answer'',
            calls (queryProviders ctx providers prompt sched))
     \<and> mset (snd (main_query_phase ctx providers prompt summarizer sched order))
         = mset (map (\<lambda>p. (Name p, prompt)) providers)"
proof -
  have d: "dom (results (queryProviders ctx providers prompt sched)) = {}"
    using assms by (simp only: results_empty_iff)
  then have e: "results (queryProviders ctx providers prompt sched) = Map.empty"
    by simp
  have m: "main_query_phase ctx providers prompt summarizer sched order
         = (Fatal ''No providers returned an answer'',
            calls (queryProviders ctx providers prompt sched))"
    using d by (simp add: main_query_phase_def Let_def)
  show ?thesis
    using e m by (simp add: calls_queryProviders)
qed

theorem all_fail_halts_before_summarization_witness:
  "\<not> succeeds Background ''q'' scenario_B
   \<and> \<not> succeeds Background ''q'' scenario_E
   \<and> main_query_phase Background [scenario_B, scenario_E] ''q'' ''B'' [1, 0] [''B'']
       = (Fatal ''No providers returned an answer'', [(''E'', ''q''), (''B'', ''q'')])"
proof -
  have h: "\<forall>p \<in> set [scenario_B, scenario_E]. \<not> succeeds Background ''q'' p"
    by (simp add: scenario_defs succeeds_def)
  have c: "calls (queryProviders Background [scenario_B, scenario_E] ''q'' [1, 0])
      = [(''E'', ''q''), (''B'', ''q'')]"
    by (simp add: queryProviders_def run_goroutines.simps pick_def scenario_defs)
  show ?thesis
    using h c all_fail_halts_before_summarization
      [OF h, where sched = "[1, 0]" and summarizer = "''B''" and order = "[''B'']"]
    by simp
qed

section \<open>The summarizer selector\<close>

lemma findSummarizerProvider_Some:
  "\<exists>p \<in> set providers. Name p = name \<and> Enabled p \<Longrightarrow>
   \<exists>q \<in> set providers. findSummarizerProvider providers name = Some q \<and> Name q = name \<and> Enabled q"
  by (induction providers) auto

lemma findSummarizerProvider_None:
  "\<not> (\<exists>p \<in> set providers. Name p = name \<and> Enabled p) \<Longrightarrow>
   findSummarizerProvider providers name = None"
  by (induction providers) auto

lemma findSummarizerProvider_Query_update:
  "findSummarizerProvider (map (\<lambda>p. p\<lparr>Query := f p\<rparr>) providers) name
     = map_option (\<lambda>p. p\<lparr>Query := f p\<rparr>) (findSummarizerProvider providers name)"
  by (induction providers) auto

text \<open>
  Claim C5. When some provider of the list has the requested name and is enabled,
  \<open>findSummarizerProvider\<close> returns a provider of the list with that name that is
  enabled; otherwise it returns \<open>nil\<close>. The selection reads only names and enabled flags:
  replacing the \<open>Query\<close> behaviour of every provider by any other (so that providers
  succeed or fail differently in the fan-out) selects the same provider.
\<close>

theorem findSummarizerProvider_selects:
  "((\<exists>p \<in> set providers. Name p = name \<and> Enabled p) \<longrightarrow>
      (\<exists>q \<in> set providers.
         findSummarizerProvider providers name = Some q \<and> Name q = name \<and> Enabled q))
   \<and> (\<not> (\<exists>p \<in> set providers. Name p = name \<and> Enabled p) \<longrightarrow>
      findSummarizerProvider providers name = None)
   \<and> findSummarizerProvider (map (\<lambda>p. p\<lparr>Query := f p\<rparr>) providers) name
       = map_option (\<lambda>p. p\<lparr>Query := f p\<rparr>) (findSummarizerProvider providers name)"
  using findSummarizerProvider_Some [of providers name]
    findSummarizerProvider_None [of providers name]
    findSummarizerProvider_Query_update [of f providers name]
  by blast

theorem findSummarizerProvider_selects_witness:
  "scenario_B \<in> set [scenario_A, scenario_B, scenario_D]
   \<and> Name scenario_B = ''B'' \<and> Enabled scenario_B
   \<and> \<not> succeeds Background ''q'' scenario_B
   \<and> findSummarizerProvider [scenario_A, scenario_B, scenario_D] ''B'' = Some scenario_B
   \<and> Name scenario_D = ''D'' \<and> \<not> Enabled scenario_D
   \<and> findSummarizerProvider [scenario_A, scenario_B, scenario_D] ''D'' = None"
  using findSummarizerProvider_selects [of "[scenario_A, scenario_B, scenario_D]" "''B''" "\<lambda>p. Query p"]
    findSummarizerProvider_selects [of "[scenario_A, scenario_B, scenario_D]" "''D''" "\<lambda>p. Query p"]
  by (simp add: scenario_defs succeeds_def)

section \<open>Loading the API keys\<close>

lemma loadAPIKeys_loop_lookup:
  "loadAPIKeys_loop ToUpper env providerNames apiKeys n
     = (if n \<in> set providerNames then Some (os_Getenv env (ToUpper n @ ''_API_KEY''))
        else apiKeys n)"
  by (induction providerNames arbitrary: apiKeys) (auto simp: Let_def)

text \<open>
  Claim C10. \<open>loadAPIKeys\<close> has no error result. Whatever function \<open>strings.ToUpper\<close>
  is, for every environment and every list of provider names, the keys of the mapping
  it returns are exactly the names of the list; the value under a name \<open>n\<close> is what
  \<open>os.Getenv\<close> gives for the upper-cased name followed by \<open>_API_KEY\<close>, which is the
  empty string when that variable is unset.
\<close>

theorem loadAPIKeys_total:
  "dom (loadAPIKeys ToUpper env providerNames) = set providerNames
   \<and> (\<forall>n \<in> set providerNames.
        loadAPIKeys ToUpper env providerNames n
          = Some (os_Getenv env (ToUpper n @ ''_API_KEY'')))
   \<and> (\<forall>n \<in> set providerNames.
        env (ToUpper n @ ''_API_KEY'') = None \<longrightarrow>
        loadAPIKeys ToUpper env providerNames n = Some [])"
  by (auto simp: loadAPIKeys_def loadAPIKeys_loop_lookup os_Getenv_def dom_def)

lemma upper_openai: "ascii_ToUpper ''openai'' = ''OPENAI''"
  by (simp add: ascii_ToUpper_def ascii_ToUpper_byte_def char_of_def bit_Suc_0_iff)

lemma upper_gemini: "ascii_ToUpper ''gemini-2'' = ''GEMINI-2''"
  by (simp add: ascii_ToUpper_def ascii_ToUpper_byte_def char_of_def bit_Suc_0_iff)

theorem loadAPIKeys_total_witness:
  "''openai'' \<in> set [''openai'', ''gemini-2'']
   \<and> ''gemini-2'' \<in> set [''openai'', ''gemini-2'']
   \<and> ascii_ToUpper ''openai'' @ ''_API_KEY'' = ''OPENAI_API_KEY''
   \<and> [''OPENAI_API_KEY'' \<mapsto> ''sk-1''] (ascii_ToUpper ''gemini-2'' @ ''_API_KEY'') = None
   \<and> dom (loadAPIKeys ascii_ToUpper [''OPENAI_API_KEY'' \<mapsto> ''sk-1''] [''openai'', ''gemini-2''])
       = {''openai'', ''gemini-2''}
   \<and> loadAPIKeys ascii_ToUpper [''OPENAI_API_KEY'' \<mapsto> ''sk-1''] [''openai'', ''gemini-2'']
         ''openai''
       = Some ''sk-1''
   \<and> loadAPIKeys ascii_ToUpper [''OPENAI_API_KEY'' \<mapsto> ''sk-1''] [''openai'', ''gemini-2'']
         ''gemini-2''
       = Some []"
  using loadAPIKeys_total
    [of ascii_ToUpper "[''OPENAI_API_KEY'' \<mapsto> ''sk-1'']" "[''openai'', ''gemini-2'']"]
  by (simp add: upper_openai upper_gemini os_Getenv_def)

section \<open>The synthesized prompt\<close>

lemma names_query:
  assumes "i < length pool" "pool ! i = Spawned prov"
  shows "map g_name (pool[i := Answered prov answer err]) = map g_name pool"
proof -
  have "(map g_name pool) [i := Name prov] = map g_name pool"
    using assms by (intro list_update_same_conv [THEN iffD2]) simp_all
  then show ?thesis by (simp add: map_update)
qed

lemma names_remove:
  assumes "i < length pool" "pool ! i = Answered prov answer err"
  shows "map g_name pool
    = map g_name (take i pool) @ Name prov # map g_name (drop (Suc i) pool)"
proof -
  have "map g_name pool = map g_name (take i pool @ pool ! i # drop (Suc i) pool)"
    using id_take_nth_drop [OF assms(1)] by (rule arg_cong [where f = "map g_name"])
  then show ?thesis using assms(2) by simp
qed

lemma results_run_distinct:
  "distinct (map g_name pool) \<longrightarrow>
     (\<forall>n a. (n, a, None) \<in> set (outcomes ctx prompt pool) \<longrightarrow>
        results (run_goroutines ctx prompt sched pool st) n = Some a)
     \<and> (\<forall>n. n \<notin> set (map g_name pool) \<longrightarrow>
        results (run_goroutines ctx prompt sched pool st) n = results st n)"
proof (rule run_goroutines_rule [where R = "\<lambda>pool st fin. distinct (map g_name pool) \<longrightarrow>
     (\<forall>n a. (n, a, None) \<in> set (outcomes ctx prompt pool) \<longrightarrow> results fin n = Some a)
     \<and> (\<forall>n. n \<notin> set (map g_name pool) \<longrightarrow> results fin n = results st n)"], goal_cases)
  case (1 st)
  show ?case by (simp add: outcomes_def)
next
  case (2 pool st i prov answer err fin)
  then show ?case by (simp add: outcomes_query names_query)
next
  case (3 pool st i prov answer e fin)
  show ?case
    using 3(3) by (simp add: outcomes_remove [OF 3(1,2)] names_remove [OF 3(1,2)])
next
  case (4 pool st i prov answer fin)
  show ?case
    using 4(3) by (auto simp add: outcomes_remove [OF 4(1,2)] names_remove [OF 4(1,2)])
qed

lemma results_queryProviders_value:
  assumes "distinct (map Name ps)" "p \<in> set ps" "succeeds ctx prompt p"
  shows "results (queryProviders ctx ps prompt sched) (Name p) = Some (fst (Query p ctx prompt None))"
proof -
  have d: "distinct (map g_name (map Spawned ps))"
    using assms(1) by (simp add: comp_def)
  have q: "Query p ctx prompt None = (fst (Query p ctx prompt None), None)"
    using assms(3) by (simp add: succeeds_def prod_eq_iff)
  have "(Name p, Query p ctx prompt None) \<in> set (outcomes ctx prompt (map Spawned ps))"
    using assms(2) by (simp add: outcomes_Spawned image_iff) blast
  then have "(Name p, fst (Query p ctx prompt None), None)
      \<in> set (outcomes ctx prompt (map Spawned ps))"
    using q by simp
  then show ?thesis
    using results_run_distinct [of "map Spawned ps" ctx prompt sched] d
    by (simp add: queryProviders_def)
qed

lemma summary_loop_text:
  "summary_loop answers order prompt
     = prompt @ concat (map (\<lambda>n. case answers n of None \<Rightarrow> [] | Some a \<Rightarrow> Sprintf_entry n a) order)"
  by (induction order arbitrary: prompt) (simp_all split: option.split)

lemma summary_prompt_text:
  assumes "set order \<subseteq> dom answers"
  shows "summary_prompt answers order
     = summary_header @ concat (map (\<lambda>n. Sprintf_entry n (lookup_string answers n)) order)"
proof -
  have "map (\<lambda>n. case answers n of None \<Rightarrow> [] | Some a \<Rightarrow> Sprintf_entry n a) order
      = map (\<lambda>n. Sprintf_entry n (lookup_string answers n)) order"
    unfolding map_eq_conv using assms by (auto simp: lookup_string_def)
  then show ?thesis
    by (simp only: summary_prompt_def summary_loop_text)
qed

lemma entry_in_prompt:
  assumes "name \<in> set order" "answers name = Some answer"
  shows "sublist (Sprintf_entry name answer) (summary_prompt answers order)"
proof -
  obtain xs ys where o: "order = xs @ name # ys"
    using assms(1) by (meson split_list)
  let ?f = "\<lambda>ns. concat (map (\<lambda>n. case answers n of None \<Rightarrow> [] | Some a \<Rightarrow> Sprintf_entry n a) ns)"
  have "summary_prompt answers order =
      (summary_header @ ?f xs) @ Sprintf_entry name answer @ ?f ys"
    using assms(2) by (simp add: summary_prompt_def summary_loop_text o)
  then show ?thesis
    by (simp only: sublist_appendI)
qed

lemma results_run_provenance:
  "\<forall>n a. results (run_goroutines ctx prompt sched pool st) n = Some a \<longrightarrow>
     results st n = Some a \<or> (n, a, None) \<in> set (outcomes ctx prompt pool)"
proof (rule run_goroutines_rule [where R = "\<lambda>pool st fin. \<forall>n a. results fin n = Some a \<longrightarrow>
     results st n = Some a \<or> (n, a, None) \<in> set (outcomes ctx prompt pool)"], goal_cases)
  case (1 st)
  show ?case by simp
next
  case (2 pool st i prov answer err fin)
  then show ?case by (simp add: outcomes_query)
next
  case (3 pool st i prov answer e fin)
  show ?case
    using 3(3) by (simp add: outcomes_remove [OF 3(1,2)])
next
  case (4 pool st i prov answer fin)
  show ?case
    using 4(3) by (auto simp add: outcomes_remove [OF 4(1,2)] split: if_splits)
qed

lemma results_queryProviders_provenance:
  assumes "results (queryProviders ctx ps prompt sched) n = Some a"
  shows "\<exists>p \<in> set ps. Name p = n \<and> succeeds ctx prompt p \<and> fst (Query p ctx prompt None) = a"
proof -
  have "(n, a, None) \<in> set (outcomes ctx prompt (map Spawned ps))"
    using assms results_run_provenance [of ctx prompt sched "map Spawned ps"
        "\<lparr>results = Map.empty, errs = Map.empty, calls = []\<rparr>"]
    by (simp add: queryProviders_def)
  then obtain p where "p \<in> set ps" "Name p = n" "Query p ctx prompt None = (a, None)"
    by (auto simp: outcomes_Spawned)
  then show ?thesis
    by (auto simp: succeeds_def)
qed

text \<open>
  The claim C3 as written fails, on two inputs. With the providers \<open>Q\<close> and \<open>B\<close>, whose
  names are distinct, \<open>B\<close> fails and is a key of the errors mapping only, and yet the
  prompt sent to the summarizer holds the line \<open>[B]: timeout\<close>: the loop copies the
  answer of \<open>Q\<close> as it is. With two providers named \<open>A\<close>, one answering and one failing,
  \<open>A\<close> is a key of the errors mapping and the prompt holds the entry of \<open>A\<close>.
\<close>

theorem prompt_can_hold_entry_of_failed_provider:
  "distinct (map Name [scenario_Q, scenario_B])
   \<and> range_order (results (queryProviders Background [scenario_Q, scenario_B] ''q'' [])) [''Q'']
   \<and> errs (queryProviders Background [scenario_Q, scenario_B] ''q'' []) ''B''
       = Some (Error ''timeout'')
   \<and> results (queryProviders Background [scenario_Q, scenario_B] ''q'' []) ''B'' = None
   \<and> snd (summarizeAnswers Background scenario_Q
          (results (queryProviders Background [scenario_Q, scenario_B] ''q'' [])) [''Q''] [])
       = [(''Q'', summary_prompt
            (results (queryProviders Background [scenario_Q, scenario_B] ''q'' [])) [''Q''])]
   \<and> sublist (Sprintf_entry ''B'' ''timeout'')
        (summary_prompt (results (queryProviders Background [scenario_Q, scenario_B] ''q'' []))
           [''Q''])
   \<and> range_order (results (queryProviders Background [scenario_A, scenario_A_failing] ''q'' []))
        [''A'']
   \<and> errs (queryProviders Background [scenario_A, scenario_A_failing] ''q'' []) ''A''
       = Some (Error ''timeout'')
   \<and> sublist (Sprintf_entry ''A'' ''ans-A'')
        (summary_prompt
           (results (queryProviders Background [scenario_A, scenario_A_failing] ''q'' []))
           [''A''])"
proof -
  let ?st1 = "queryProviders Background [scenario_Q, scenario_B] ''q'' []"
  let ?st2 = "queryProviders Background [scenario_A, scenario_A_failing] ''q'' []"
  have r1: "results ?st1 = [''Q'' \<mapsto> ''x'' @ [CHR 0x0A] @ ''[B]: timeout'']"
    and e1: "errs ?st1 = [''B'' \<mapsto> Error ''timeout'']"
    by (simp_all add: queryProviders_def run_goroutines.simps pick_def scenario_defs)
  have r2: "results ?st2 = [''A'' \<mapsto> ''ans-A'']"
    and e2: "errs ?st2 = [''A'' \<mapsto> Error ''timeout'']"
    by (simp_all add: queryProviders_def run_goroutines.simps pick_def scenario_defs)
  have p1: "summary_prompt (results ?st1) [''Q'']
      = (summary_header @ ''[Q]: x'' @ [CHR 0x0A]) @ Sprintf_entry ''B'' ''timeout'' @ []"
    by (simp add: r1 summary_prompt_def Sprintf_entry_def)
  have s1: "sublist (Sprintf_entry ''B'' ''timeout'') (summary_prompt (results ?st1) [''Q''])"
    by (subst p1) (rule sublist_appendI)
  have p2: "summary_prompt (results ?st2) [''A'']
      = summary_header @ Sprintf_entry ''A'' ''ans-A'' @ []"
    by (simp add: r2 summary_prompt_def)
  have s2: "sublist (Sprintf_entry ''A'' ''ans-A'') (summary_prompt (results ?st2) [''A''])"
    by (subst p2) (rule sublist_appendI)
  have d: "distinct (map Name [scenario_Q, scenario_B])"
    by (simp add: scenario_defs)
  have o1: "range_order (results ?st1) [''Q'']" and o2: "range_order (results ?st2) [''A'']"
    by (simp_all add: r1 r2 range_order_def)
  have c: "snd (summarizeAnswers Background scenario_Q (results ?st1) [''Q''] [])
       = [(''Q'', summary_prompt (results ?st1) [''Q''])]"
    by (simp add: summarizeAnswers_def Let_def scenario_defs)
  show ?thesis
    using d o1 o2 s1 s2 c by (simp add: e1 e2 r1)
qed

text \<open>
  Claim C3, amended. For every list of providers, every schedule of the fan-out and
  every order in which the runtime ranges over the results mapping, \<open>summarizeAnswers\<close>
  invokes the summarizer on the prompt of the loop, and that prompt is the header
  followed by one line \<open>[name]: answer\<close> per key of the results mapping, in range
  order, and nothing else. The keys are the names of the providers that succeeded, each
  once; the line of a key carries the answer of a provider of that name that succeeded,
  and is a contiguous part of the prompt. When the names of the providers are pairwise
  distinct, the line of every provider that succeeded, with its own answer, is part of
  the prompt, and the loop writes no line under the name of a provider that failed.
\<close>

theorem summarizer_prompt_lists_results:
  assumes "range_order (results (queryProviders ctx providers prompt sched)) order"
  shows "summarizeAnswers ctx sp (results (queryProviders ctx providers prompt sched)) order log
       = (Query sp ctx
            (summary_prompt (results (queryProviders ctx providers prompt sched)) order) None,
          log @ [(Name sp,
            summary_prompt (results (queryProviders ctx providers prompt sched)) order)])
     \<and> summary_prompt (results (queryProviders ctx providers prompt sched)) order
       = summary_header @ concat (map (\<lambda>n. Sprintf_entry n
           (lookup_string (results (queryProviders ctx providers prompt sched)) n)) order)
     \<and> distinct order
     \<and> set order = set (map Name (filter (succeeds ctx prompt) providers))
     \<and> (\<forall>n \<in> set order. \<exists>p \<in> set providers.
          Name p = n \<and> succeeds ctx prompt p
          \<and> results (queryProviders ctx providers prompt sched) n
              = Some (fst (Query p ctx prompt None))
          \<and> sublist (Sprintf_entry n (fst (Query p ctx prompt None)))
              (summary_prompt (results (queryProviders ctx providers prompt sched)) order))
     \<and> (distinct (map Name providers) \<longrightarrow>
          (\<forall>p \<in> set providers.
             (succeeds ctx prompt p \<longrightarrow>
                sublist (Sprintf_entry (Name p) (fst (Query p ctx prompt None)))
                  (summary_prompt (results (queryProviders ctx providers prompt sched)) order))
             \<and> (\<not> succeeds ctx prompt p \<longrightarrow> Name p \<notin> set order)))"
proof -
  let ?st = "queryProviders ctx providers prompt sched"
  let ?P = "summary_prompt (results ?st) order"
  have o: "distinct order" "set order = dom (results ?st)"
    using assms by (simp_all add: range_order_def)
  have a: "summarizeAnswers ctx sp (results ?st) order log
       = (Query sp ctx ?P None, log @ [(Name sp, ?P)])"
    by (simp add: summarizeAnswers_def Let_def)
  have b: "?P = summary_header @ concat (map (\<lambda>n. Sprintf_entry n
           (lookup_string (results ?st) n)) order)"
    using o(2) by (intro summary_prompt_text) simp
  have c: "set order = set (map Name (filter (succeeds ctx prompt) providers))"
    using o(2) by (simp only: dom_results_queryProviders)
  have d: "\<exists>p \<in> set providers. Name p = n \<and> succeeds ctx prompt p
          \<and> results ?st n = Some (fst (Query p ctx prompt None))
          \<and> sublist (Sprintf_entry n (fst (Query p ctx prompt None))) ?P"
    if n: "n \<in> set order" for n
  proof -
    obtain a where v: "results ?st n = Some a"
      using n o(2) by blast
    obtain p where p: "p \<in> set providers" "Name p = n" "succeeds ctx prompt p"
        "fst (Query p ctx prompt None) = a"
      using results_queryProviders_provenance [OF v] by blast
    have "sublist (Sprintf_entry n a) ?P"
      using n v by (rule entry_in_prompt)
    then show ?thesis using p v by blast
  qed
  have e: "(succeeds ctx prompt p \<longrightarrow>
                sublist (Sprintf_entry (Name p) (fst (Query p ctx prompt None))) ?P)
             \<and> (\<not> succeeds ctx prompt p \<longrightarrow> Name p \<notin> set order)"
    if dn: "distinct (map Name providers)" and p: "p \<in> set providers" for p
  proof (intro conjI impI)
    assume s: "succeeds ctx prompt p"
    have v: "results ?st (Name p) = Some (fst (Query p ctx prompt None))"
      using dn p s by (rule results_queryProviders_value)
    then have "Name p \<in> set order" using o(2) by blast
    then show "sublist (Sprintf_entry (Name p) (fst (Query p ctx prompt None))) ?P"
      using v by (rule entry_in_prompt)
  next
    assume f: "\<not> succeeds ctx prompt p"
    show "Name p \<notin> set order"
    proof
      assume "Name p \<in> set order"
      then obtain q where q: "q \<in> set providers" "Name q = Name p" "succeeds ctx prompt q"
        using d by blast
      have "inj_on Name (set providers)"
        using dn by (simp add: distinct_map)
      then have "q = p" using q(1,2) p by (auto dest: inj_onD)
      then show False using q(3) f by simp
    qed
  qed
  show ?thesis using a b o(1) c d e by blast
qed

theorem summarizer_prompt_lists_results_witness:
  "range_order
     (results (queryProviders Background [scenario_A, scenario_B, scenario_C] ''q'' [2, 0, 1, 1]))
     [''C'', ''A'']
   \<and> summarizeAnswers Background scenario_A
        (results (queryProviders Background [scenario_A, scenario_B, scenario_C] ''q'' [2, 0, 1, 1]))
        [''C'', ''A''] []
       = ((''ans-A'', None),
          [(''A'', summary_header @ Sprintf_entry ''C'' ''ans-C'' @ Sprintf_entry ''A'' ''ans-A'')])
   \<and> ''A'' \<in> set [''C'', ''A'']
   \<and> distinct (map Name [scenario_A, scenario_B, scenario_C])
   \<and> scenario_A \<in> set [scenario_A, scenario_B, scenario_C]
   \<and> succeeds Background ''q'' scenario_A
   \<and> sublist (Sprintf_entry ''A'' ''ans-A'')
        (summary_prompt
          (results (queryProviders Background [scenario_A, scenario_B, scenario_C] ''q'' [2, 0, 1, 1]))
          [''C'', ''A''])
   \<and> scenario_B \<in> set [scenario_A, scenario_B, scenario_C]
   \<and> \<not> succeeds Background ''q'' scenario_B
   \<and> Name scenario_B \<notin> set [''C'', ''A'']"
proof -
  let ?ps = "[scenario_A, scenario_B, scenario_C]"
  let ?st = "queryProviders Background ?ps ''q'' [2, 0, 1, 1]"
  have h: "range_order (results ?st) [''C'', ''A'']"
    by (simp only: range_order_def dom_results_queryProviders)
      (auto simp add: scenario_defs succeeds_def)
  have d: "distinct (map Name ?ps)"
    by (simp add: scenario_defs)
  have sa: "succeeds Background ''q'' scenario_A" and sb: "\<not> succeeds Background ''q'' scenario_B"
    by (simp_all add: scenario_defs succeeds_def)
  have n: "Name scenario_A = ''A''" "fst (Query scenario_A Background ''q'' None) = ''ans-A''"
    "Query scenario_A Background
       (summary_header @ Sprintf_entry ''C'' ''ans-C'' @ Sprintf_entry ''A'' ''ans-A'') None
       = (''ans-A'', None)"
    by (simp_all add: scenario_defs)
  have l: "lookup_string (results ?st) ''C'' = ''ans-C''"
    "lookup_string (results ?st) ''A'' = ''ans-A''"
    by (simp_all add: lookup_string_def queryProviders_def run_goroutines.simps pick_def
        scenario_defs)
  note t = summarizer_prompt_lists_results [OF h, of scenario_A "[]"]
  have t1: "summarizeAnswers Background scenario_A (results ?st) [''C'', ''A''] []
      = ((''ans-A'', None),
         [(''A'', summary_header @ Sprintf_entry ''C'' ''ans-C'' @ Sprintf_entry ''A'' ''ans-A'')])"
    using t [THEN conjunct1] t [THEN conjunct2, THEN conjunct1] n l by simp
  have t6: "\<forall>p \<in> set ?ps.
      (succeeds Background ''q'' p \<longrightarrow>
         sublist (Sprintf_entry (Name p) (fst (Query p Background ''q'' None)))
           (summary_prompt (results ?st) [''C'', ''A'']))
      \<and> (\<not> succeeds Background ''q'' p \<longrightarrow> Name p \<notin> set [''C'', ''A''])"
    using t d by blast
  have a: "scenario_A \<in> set ?ps" and b: "scenario_B \<in> set ?ps"
    by simp_all
  have t6a: "sublist (Sprintf_entry ''A'' ''ans-A'') (summary_prompt (results ?st) [''C'', ''A''])"
    using t6 a sa n by metis
  have t6b: "Name scenario_B \<notin> set [''C'', ''A'']"
    using t6 b sb by blast
  show ?thesis
    using h t1 d a b sa sb t6a t6b t [THEN conjunct2, THEN conjunct2, THEN conjunct1]
    by simp
qed

section \<open>Configuration errors and missing credentials\<close>

text \<open>
  The claim C6 as written fails: with \<open>openai\<close> enabled and \<open>OPENAI_API_KEY\<close> unset,
  \<open>loadAPIKeys\<close> stores the empty string, nothing checks it, and \<open>main\<close> queries the
  provider twice and prints a verdict.
\<close>

theorem missing_credential_not_fatal:
  "flag_or (flag_env world_no_key) ''.env'' = ''.env''
   \<and> (case godotenv_Load world_no_key ''.env'' of
         Inl err \<Rightarrow> False
       | Inr env \<Rightarrow>
           env (strings_ToUpper world_no_key ''openai'' @ ''_API_KEY'') = None
           \<and> loadAPIKeys (strings_ToUpper world_no_key) env [''openai''] ''openai'' = Some [])
   \<and> main world_no_key
     = (Exit0 [''----- Final Verdict -----'',
               ''OpenAI answer to: '' @ summary_header
                 @ Sprintf_entry ''openai'' ''OpenAI answer to: hi''],
        [(''openai'', ''hi''),
         (''openai'', summary_header @ Sprintf_entry ''openai'' ''OpenAI answer to: hi'')])"
  by (simp add: world_no_key_def main_def flag_or_def setupLogger_def loadConfig_def
      range_keys_def loadAPIKeys_def os_Getenv_def getEnabledProviders_def allProviders_def
      OpenAIProvider_iface_def OpenAIProvider_Name_def OpenAIProvider_Enabled_def
      OpenAIProvider_Query_def lookup_bool_def lookup_string_def main_query_phase_def
      queryProviders_def run_goroutines.simps pick_def summarizeAnswers_def
      summary_prompt_def upper_openai Let_def)

text \<open>
  Claim C6, amended. When the configuration file cannot be opened or decoded, or the
  \<open>.env\<close> file cannot be loaded, the run ends with an error exit (a fatal log message,
  or the message of a failed logger setup) and no provider's \<open>Query\<close> has been invoked.
\<close>

theorem config_errors_halt_before_queries:
  assumes "(\<exists>err. loadConfig w (flag_or (flag_config w) ''config.json'') = Inl err)
      \<or> (\<exists>err. godotenv_Load w (flag_or (flag_env w) ''.env'') = Inl err)"
  shows "snd (main w) = []
     \<and> (\<exists>msg. fst (main w) = Fatal msg \<or> fst (main w) = Exit1 msg)"
  using assms
  by (auto simp: main_def Let_def split: option.splits sum.splits)

theorem config_errors_halt_before_queries_witness:
  "loadConfig world_no_config (flag_or (flag_config world_no_config) ''config.json'')
     = Inl (Error ''no such file'')
   \<and> godotenv_Load world_no_env (flag_or (flag_env world_no_env) ''.env'')
     = Inl (Error ''no such file'')
   \<and> main world_no_config = (Fatal ''Failed to load config'', [])
   \<and> main world_no_env = (Fatal ''Failed to load .env file'', [])"
proof -
  have a: "loadConfig world_no_config (flag_or (flag_config world_no_config) ''config.json'')
     = Inl (Error ''no such file'')"
    by (simp add: world_no_config_def world_no_key_def loadConfig_def flag_or_def)
  have b: "godotenv_Load world_no_env (flag_or (flag_env world_no_env) ''.env'')
     = Inl (Error ''no such file'')"
    by (simp add: world_no_env_def world_no_key_def flag_or_def)
  have c: "fst (main world_no_config) = Fatal ''Failed to load config''"
    by (simp add: world_no_config_def world_no_key_def main_def flag_or_def setupLogger_def
        loadConfig_def)
  have d: "fst (main world_no_env) = Fatal ''Failed to load .env file''"
    by (simp add: world_no_env_def world_no_key_def main_def flag_or_def setupLogger_def
        loadConfig_def)
  have a': "(\<exists>err. loadConfig world_no_config
        (flag_or (flag_config world_no_config) ''config.json'') = Inl err)
      \<or> (\<exists>err. godotenv_Load world_no_config
        (flag_or (flag_env world_no_config) ''.env'') = Inl err)"
    using a by blast
  have b': "(\<exists>err. loadConfig world_no_env
        (flag_or (flag_config world_no_env) ''config.json'') = Inl err)
      \<or> (\<exists>err. godotenv_Load world_no_env
        (flag_or (flag_env world_no_env) ''.env'') = Inl err)"
    using b by blast
  show ?thesis
    using a b c d config_errors_halt_before_queries [OF a']
      config_errors_halt_before_queries [OF b']
    by (simp add: prod_eq_iff)
qed

section \<open>A single provider that is its own summarizer\<close>

text \<open>
  The claim C8 as written fails: when the user's prompt is itself the text that the
  summarization step builds from the provider's answer, the provider is invoked twice
  with the same prompt.
\<close>

theorem summarizer_prompt_can_equal_original:
  "Enabled scenario_A
   \<and> succeeds Background echo_prompt scenario_A
   \<and> findSummarizerProvider [scenario_A] ''A'' = Some scenario_A
   \<and> range_order (results (queryProviders Background [scenario_A] echo_prompt [])) [''A'']
   \<and> main_query_phase Background [scenario_A] echo_prompt ''A'' [] [''A'']
     = (Exit0 [''----- Final Verdict -----'', ''ans-A''],
        [(''A'', echo_prompt), (''A'', echo_prompt)])"
  by (simp add: scenario_defs succeeds_def range_order_def main_query_phase_def
      queryProviders_def run_goroutines.simps pick_def summarizeAnswers_def
      summary_prompt_def echo_prompt_def)

text \<open>The answer of the OpenAI provider is never shorter than the prompt it answers.\<close>

lemma OpenAIProvider_answer_length:
  "length prompt \<le> length (fst (Query (OpenAIProvider_iface x) ctx prompt extra))"
  by (simp add: OpenAIProvider_iface_def OpenAIProvider_Query_def)

lemma distinct_singleton_set:
  assumes "distinct xs" "set xs = {x}"
  shows "xs = [x]"
proof (cases xs)
  case Nil
  then show ?thesis using assms(2) by simp
next
  case (Cons y ys)
  have y: "y = x" using assms(2) Cons by auto
  have sub: "\<And>z. z \<in> set ys \<Longrightarrow> z = x"
    using assms(2) Cons by auto
  have notin: "x \<notin> set ys"
    using assms(1) Cons y by simp
  have "ys = []"
  proof (cases ys)
    case Nil
    then show ?thesis .
  next
    case (Cons z zs)
    then have "z \<in> set ys" by simp
    then show ?thesis using sub notin by blast
  qed
  then show ?thesis using Cons y by simp
qed

text \<open>
  Claim C8, amended. In the query phase with a single enabled provider that succeeds and
  is the selected summarizer, the provider's \<open>Query\<close> is invoked exactly twice: first
  with the original prompt, then with the synthesized prompt, the header followed by the
  entry of its answer. The two prompts differ whenever the answer is at least as long
  as the original prompt (as it is for the OpenAI provider, whose answer contains the
  prompt).
\<close>

theorem single_provider_queried_twice:
  assumes "Enabled p" and "succeeds ctx prompt p"
    and "range_order (results (queryProviders ctx [p] prompt sched)) order"
  shows "snd (main_query_phase ctx [p] prompt (Name p) sched order)
       = [(Name p, prompt),
          (Name p, summary_header @ Sprintf_entry (Name p) (fst (Query p ctx prompt None)))]
     \<and> (length prompt \<le> length (fst (Query p ctx prompt None)) \<longrightarrow>
          summary_header @ Sprintf_entry (Name p) (fst (Query p ctx prompt None)) \<noteq> prompt)"
proof -
  let ?st = "queryProviders ctx [p] prompt sched"
  let ?answer = "fst (Query p ctx prompt None)"
  have c: "calls ?st = [(Name p, prompt)]"
    using calls_queryProviders [of ctx "[p]" prompt sched] by simp
  have d: "dom (results ?st) = {Name p}"
    using assms(2) by (simp only: dom_results_queryProviders) simp
  have v: "results ?st (Name p) = Some ?answer"
    using assms(2) by (intro results_queryProviders_value) simp_all
  have o: "order = [Name p]"
    using assms(3) d by (simp add: range_order_def distinct_singleton_set)
  have s: "summary_prompt (results ?st) order = summary_header @ Sprintf_entry (Name p) ?answer"
    using v by (simp add: o summary_prompt_def)
  have f: "findSummarizerProvider [p] (Name p) = Some p"
    using assms(1) by simp
  have ne: "dom (results ?st) \<noteq> {}"
    using d by simp
  have one: "snd (main_query_phase ctx [p] prompt (Name p) sched order)
       = [(Name p, prompt), (Name p, summary_header @ Sprintf_entry (Name p) ?answer)]"
    using c ne f s
    by (simp add: main_query_phase_def summarizeAnswers_def Let_def
        split: prod.split option.split)
  have two: "summary_header @ Sprintf_entry (Name p) ?answer \<noteq> prompt"
    if "length prompt \<le> length ?answer"
  proof
    assume "summary_header @ Sprintf_entry (Name p) ?answer = prompt"
    then have "length (summary_header @ Sprintf_entry (Name p) ?answer) = length prompt"
      by simp
    then show False using that by (simp add: Sprintf_entry_def)
  qed
  show ?thesis using one two by blast
qed

theorem single_provider_queried_twice_witness:
  "Enabled (OpenAIProvider_iface \<lparr>enabled = True, apiKey = []\<rparr>)
   \<and> succeeds Background ''hi'' (OpenAIProvider_iface \<lparr>enabled = True, apiKey = []\<rparr>)
   \<and> range_order
        (results (queryProviders Background [OpenAIProvider_iface \<lparr>enabled = True, apiKey = []\<rparr>]
           ''hi'' [])) [''openai'']
   \<and> length ''hi'' \<le> length ''OpenAI answer to: hi''
   \<and> snd (main_query_phase Background [OpenAIProvider_iface \<lparr>enabled = True, apiKey = []\<rparr>]
        ''hi'' ''openai'' [] [''openai''])
     = [(''openai'', ''hi''),
        (''openai'', summary_header @ Sprintf_entry ''openai'' ''OpenAI answer to: hi'')]
   \<and> summary_header @ Sprintf_entry ''openai'' ''OpenAI answer to: hi'' \<noteq> ''hi''"
proof -
  let ?p = "OpenAIProvider_iface \<lparr>enabled = True, apiKey = []\<rparr>"
  have n: "Name ?p = ''openai''" "fst (Query ?p Background ''hi'' None) = ''OpenAI answer to: hi''"
    by (simp_all add: OpenAIProvider_iface_def OpenAIProvider_Name_def OpenAIProvider_Query_def)
  have h1: "Enabled ?p"
    by (simp add: OpenAIProvider_iface_def OpenAIProvider_Enabled_def)
  have h2: "succeeds Background ''hi'' ?p"
    by (simp add: succeeds_def OpenAIProvider_iface_def OpenAIProvider_Query_def)
  have h3: "range_order (results (queryProviders Background [?p] ''hi'' [])) [''openai'']"
    using h2 n(1) by (simp only: range_order_def dom_results_queryProviders) simp
  have h4: "length ''hi'' \<le> length (fst (Query ?p Background ''hi'' None))"
    by (rule OpenAIProvider_answer_length)
  show ?thesis
    using h1 h2 h3 h4 single_provider_queried_twice [OF h1 h2 h3] n by simp
qed

end
